theory Spec2Isabelle
  imports Complex_Main
begin

section \<open>The snake game of \<open>snake_game.py\<close>\<close>

text \<open>
  A shallow embedding of the class \<open>SnakeGame\<close>: its attributes are the fields of the
  record \<open>game\<close>, its methods are functions from a game to a game. Two things the
  methods read from outside are made explicit. The clock: \<open>update\<close> takes the value
  \<open>time.time()\<close> returns as its argument \<open>now\<close> (a call of \<open>update\<close> reads the clock
  at most once, see \<open>update_orange\<close>). The random generator: the field \<open>rng\<close> holds the
  results of the coming calls of \<open>random.randint\<close>, in order; each call takes the first.
  Floats are modelled as rationals and computed with exactly.
\<close>

subsection \<open>Constants and data\<close>

type_synonym cell = "int \<times> int"

definition GRID_SIZE :: int where "GRID_SIZE = 20"
definition GRID_WIDTH :: int where "GRID_WIDTH = 20"
definition GRID_HEIGHT :: int where "GRID_HEIGHT = 20"
definition SCREEN_WIDTH :: int where "SCREEN_WIDTH = GRID_WIDTH * GRID_SIZE"
definition SCREEN_HEIGHT :: int where "SCREEN_HEIGHT = GRID_HEIGHT * GRID_SIZE + 60"

datatype Direction = UP | DOWN | LEFT | RIGHT

fun delta :: "Direction \<Rightarrow> int \<times> int" where
  "delta UP = (0, -1)"
| "delta DOWN = (0, 1)"
| "delta LEFT = (-1, 0)"
| "delta RIGHT = (1, 0)"

text \<open>A \<open>pygame.Rect\<close> as (left, top, width, height).\<close>

type_synonym rect = "int \<times> int \<times> int \<times> int"

fun collidepoint :: "rect \<Rightarrow> int \<Rightarrow> int \<Rightarrow> bool" where
  "collidepoint (l, t, w, h) x y = (l \<le> x \<and> x < l + w \<and> t \<le> y \<and> y < t + h)"

text \<open>What a call can end in other than a result.\<close>

datatype failure =
  IndexError \<comment> \<open>\<open>self.snake[0]\<close> on an empty list\<close>
| DrawsExhausted \<comment> \<open>a spawn loop rejected every draw it was given: it has not returned\<close>

record game =
  menu_active :: bool
  selected_level :: int
  menu_buttons :: "(string \<times> rect) list"
  apples_eaten_since_orange :: int
  orange_active :: bool
  orange_pos :: "cell option"
  orange_spawn_time :: rat
  snake :: "cell list"
  direction :: Direction
  next_direction :: Direction
  food :: cell
  score :: int
  game_over :: bool
  game_over_message :: "string option"
  difficulty :: int
  game_paused :: bool
  rng :: "int list"

text \<open>
  \<open>self.orange_duration = 5.0\<close> is assigned in \<open>__init__\<close> and never again, so it is a
  constant here.
\<close>

definition orange_duration :: rat where "orange_duration = 5"

subsection \<open>Spawning\<close>

text \<open>
  \<open>spawn_food\<close> and \<open>spawn_orange\<close> loop until a draw is accepted. Each round takes two
  draws, \<open>x\<close> then \<open>y\<close>. The result is the accepted cell and the draws left.
\<close>

fun spawn_food :: "cell list \<Rightarrow> bool \<Rightarrow> cell option \<Rightarrow> int list \<Rightarrow> failure + (cell \<times> int list)" where
  "spawn_food sn oa op (x # y # ds) =
     (if (x, y) \<notin> set sn \<and> (\<not> oa \<or> Some (x, y) \<noteq> op) then Inr ((x, y), ds)
      else spawn_food sn oa op ds)"
| "spawn_food sn oa op ds = Inl DrawsExhausted"

fun spawn_orange :: "cell list \<Rightarrow> cell \<Rightarrow> int list \<Rightarrow> failure + (cell \<times> int list)" where
  "spawn_orange sn fd (x # y # ds) =
     (if (x, y) \<notin> set sn \<and> (x, y) \<noteq> fd then Inr ((x, y), ds)
      else spawn_orange sn fd ds)"
| "spawn_orange sn fd ds = Inl DrawsExhausted"

subsection \<open>\<open>reset_game\<close> and \<open>__init__\<close>\<close>

definition reset_game :: "game \<Rightarrow> failure + game" where
  "reset_game s =
     (let start_x = GRID_WIDTH div 2;
          start_y = GRID_HEIGHT div 2;
          s1 = s\<lparr>snake := [(start_x, start_y), (start_x - 1, start_y), (start_x - 2, start_y)],
                 direction := RIGHT,
                 next_direction := RIGHT\<rparr>
      in case spawn_food (snake s1) (orange_active s1) (orange_pos s1) (rng s1) of
           Inl f \<Rightarrow> Inl f
         | Inr (c, ds) \<Rightarrow>
             Inr (s1\<lparr>food := c, rng := ds, score := 0, game_over := False,
                     game_over_message := None\<rparr>))"

text \<open>
  \<open>__init__\<close>, given the draws of the generator. \<open>before_reset\<close> is the object when
  \<open>__init__\<close> calls \<open>reset_game\<close>. The attributes that \<open>__init__\<close> has not assigned by
  then (from \<open>snake\<close> on) are all assigned by \<open>reset_game\<close> or right after it; the values
  they have in \<open>before_reset\<close> are never read.
\<close>

definition before_reset :: "int list \<Rightarrow> game" where
  "before_reset ds =
     \<lparr>menu_active = True, selected_level = 1, menu_buttons = [],
      apples_eaten_since_orange = 0, orange_active = False, orange_pos = None,
      orange_spawn_time = 0,
      snake = [], direction = RIGHT, next_direction = RIGHT, food = (0, 0), score = 0,
      game_over = False, game_over_message = None, difficulty = 1, game_paused = False,
      rng = ds\<rparr>"

definition init :: "int list \<Rightarrow> failure + game" where
  "init ds =
     (case reset_game (before_reset ds) of
        Inl f \<Rightarrow> Inl f
      | Inr s \<Rightarrow> Inr (s\<lparr>difficulty := 1, game_over_message := None, game_paused := False\<rparr>))"

subsection \<open>\<open>handle_input\<close>\<close>

datatype key =
  K_UP | K_w | K_DOWN | K_s | K_LEFT | K_a | K_RIGHT | K_d
| K_SPACE | K_r | K_1 | K_2 | K_3 | K_RETURN | K_other

datatype event =
  QUIT
| MOUSEBUTTONDOWN int int int \<comment> \<open>button, then the position\<close>
| KEYDOWN key
| OTHER

text \<open>\<open>self.menu_buttons.get(k) and self.menu_buttons[k].collidepoint(mx, my)\<close>\<close>

definition button_hit :: "game \<Rightarrow> string \<Rightarrow> int \<Rightarrow> int \<Rightarrow> bool" where
  "button_hit s k mx my =
     (case map_of (menu_buttons s) k of None \<Rightarrow> False | Some r \<Rightarrow> collidepoint r mx my)"

text \<open>The loop over the level buttons of a click in the menu; \<open>n\<close> is \<open>int(key[-1])\<close>.\<close>

fun level_buttons :: "(string \<times> int) list \<Rightarrow> int \<Rightarrow> int \<Rightarrow> game \<Rightarrow> game" where
  "level_buttons [] mx my s = s"
| "level_buttons ((k, n) # ks) mx my s =
     level_buttons ks mx my
       (if button_hit s k mx my then s\<lparr>selected_level := n, difficulty := n\<rparr> else s)"

text \<open>
  What one key does outside the menu. The first matching branch of the \<open>if\<close>/\<open>elif\<close>
  chain is taken.
\<close>

definition set_difficulty :: "int \<Rightarrow> game \<Rightarrow> failure + game" where
  "set_difficulty n s =
     (case reset_game (s\<lparr>difficulty := n\<rparr>) of
        Inl f \<Rightarrow> Inl f
      | Inr s' \<Rightarrow> Inr (s'\<lparr>game_paused := False\<rparr>))"

definition steer :: "Direction \<Rightarrow> Direction \<Rightarrow> game \<Rightarrow> game" where
  "steer opposite d s = (if direction s \<noteq> opposite then s\<lparr>next_direction := d\<rparr> else s)"

fun keydown :: "key \<Rightarrow> game \<Rightarrow> failure + game" where
  "keydown K_UP s = Inr (steer DOWN UP s)"
| "keydown K_w s = Inr (steer DOWN UP s)"
| "keydown K_DOWN s = Inr (steer UP DOWN s)"
| "keydown K_s s = Inr (steer UP DOWN s)"
| "keydown K_LEFT s = Inr (steer RIGHT LEFT s)"
| "keydown K_a s = Inr (steer RIGHT LEFT s)"
| "keydown K_RIGHT s = Inr (steer LEFT RIGHT s)"
| "keydown K_d s = Inr (steer LEFT RIGHT s)"
| "keydown K_SPACE s = Inr (s\<lparr>game_paused := \<not> game_paused s\<rparr>)"
| "keydown K_r s =
     (case reset_game s of Inl f \<Rightarrow> Inl f | Inr s' \<Rightarrow> Inr (s'\<lparr>game_paused := False\<rparr>))"
| "keydown K_1 s = set_difficulty 1 s"
| "keydown K_2 s = set_difficulty 2 s"
| "keydown K_3 s = set_difficulty 3 s"
| "keydown _ s = Inr s"

text \<open>What one key does in the menu.\<close>

definition select_level :: "int \<Rightarrow> game \<Rightarrow> game" where
  "select_level n s = s\<lparr>selected_level := n, difficulty := n\<rparr>"

fun menu_keydown :: "key \<Rightarrow> game \<Rightarrow> failure + game" where
  "menu_keydown K_RETURN s = reset_game (s\<lparr>menu_active := False\<rparr>)"
| "menu_keydown K_1 s = Inr (select_level 1 s)"
| "menu_keydown K_2 s = Inr (select_level 2 s)"
| "menu_keydown K_3 s = Inr (select_level 3 s)"
| "menu_keydown _ s = Inr s"

text \<open>
  A left click in the menu: the Play button, then the Quit button (which returns
  \<open>False\<close> at once), then the level buttons.
\<close>

definition menu_click :: "int \<Rightarrow> int \<Rightarrow> game \<Rightarrow> failure + (bool \<times> game)" where
  "menu_click mx my s =
     (case (if button_hit s ''play'' mx my then reset_game (s\<lparr>menu_active := False\<rparr>)
            else Inr s) of
        Inl f \<Rightarrow> Inl f
      | Inr s1 \<Rightarrow>
          if button_hit s1 ''quit'' mx my then Inr (False, s1)
          else Inr (True, level_buttons [(''lvl1'', 1), (''lvl2'', 2), (''lvl3'', 3)] mx my s1))"

text \<open>
  The body of the loop over the events. The boolean is \<open>False\<close> when the body returns
  \<open>False\<close> from \<open>handle_input\<close>, \<open>True\<close> when the loop goes on.
\<close>

definition continue :: "failure + game \<Rightarrow> failure + (bool \<times> game)" where
  "continue r = (case r of Inl f \<Rightarrow> Inl f | Inr s \<Rightarrow> Inr (True, s))"

fun handle_event :: "event \<Rightarrow> game \<Rightarrow> failure + (bool \<times> game)" where
  "handle_event QUIT s = Inr (False, s)"
| "handle_event (MOUSEBUTTONDOWN b mx my) s =
     (if menu_active s then (if b = 1 then menu_click mx my s else Inr (True, s))
      else Inr (True, s))"
| "handle_event (KEYDOWN k) s =
     (if menu_active s then continue (menu_keydown k s) else continue (keydown k s))"
| "handle_event OTHER s = Inr (True, s)"

fun handle_input :: "event list \<Rightarrow> game \<Rightarrow> failure + (bool \<times> game)" where
  "handle_input [] s = Inr (True, s)"
| "handle_input (e # es) s =
     (case handle_event e s of
        Inl f \<Rightarrow> Inl f
      | Inr (running, s') \<Rightarrow> if running then handle_input es s' else Inr (False, s'))"

subsection \<open>\<open>update\<close>\<close>

text \<open>Python's \<open>int\<close> of a float rounds towards zero.\<close>

definition py_int :: "rat \<Rightarrow> int" where
  "py_int x = (if 0 \<le> x then \<lfloor>x\<rfloor> else \<lceil>x\<rceil>)"

text \<open>The value of an orange eaten \<open>elapsed\<close> seconds after it was spawned.\<close>

definition orange_score :: "rat \<Rightarrow> int" where
  "orange_score elapsed =
     (let frac = min (max (elapsed / orange_duration) 0) 1
      in max 5 (py_int (50 - frac * 45)))"

text \<open>
  The food check, with the head already inserted. Without food on the new head the
  tail is popped.
\<close>

definition update_food :: "rat \<Rightarrow> cell \<Rightarrow> game \<Rightarrow> failure + game" where
  "update_food now new_head s =
     (if new_head = food s then
        let s1 = s\<lparr>score := score s + 10 * difficulty s\<rparr>
        in case spawn_food (snake s1) (orange_active s1) (orange_pos s1) (rng s1) of
             Inl f \<Rightarrow> Inl f
           | Inr (c, ds) \<Rightarrow>
               let s2 = s1\<lparr>food := c, rng := ds,
                           apples_eaten_since_orange := apples_eaten_since_orange s1 + 1\<rparr>
               in if apples_eaten_since_orange s2 \<ge> 5 \<and> \<not> orange_active s2 then
                    case spawn_orange (snake s2) (food s2) (rng s2) of
                      Inl f \<Rightarrow> Inl f
                    | Inr (p, ds') \<Rightarrow>
                        Inr (s2\<lparr>orange_pos := Some p, rng := ds', orange_active := True,
                                orange_spawn_time := now, apples_eaten_since_orange := 0\<rparr>)
                  else Inr s2
      else Inr (s\<lparr>snake := butlast (snake s)\<rparr>))"

text \<open>
  The orange check. An orange spawned by \<open>update_food\<close> in the same call is off the
  snake, so off the new head: the clock is read here or there, never in both.
\<close>

definition append_tail :: "cell list \<Rightarrow> cell list" where
  "append_tail sn = sn @ [last sn]"

definition update_orange :: "rat \<Rightarrow> cell \<Rightarrow> game \<Rightarrow> game" where
  "update_orange now new_head s =
     (if orange_active s \<and> Some new_head = orange_pos s then
        let elapsed = now - orange_spawn_time s
        in s\<lparr>score := score s + orange_score elapsed,
             snake := append_tail (append_tail (snake s)),
             orange_active := False, orange_pos := None, orange_spawn_time := 0\<rparr>
      else s)"

definition new_head_of :: "game \<Rightarrow> cell" where
  "new_head_of s =
     (case snake s of
        [] \<Rightarrow> (0, 0)
      | (head_x, head_y) # _ \<Rightarrow>
          (case delta (next_direction s) of (dx, dy) \<Rightarrow> (head_x + dx, head_y + dy)))"

definition off_grid :: "cell \<Rightarrow> bool" where
  "off_grid c = (fst c < 0 \<or> fst c \<ge> GRID_WIDTH \<or> snd c < 0 \<or> snd c \<ge> GRID_HEIGHT)"

definition update :: "rat \<Rightarrow> game \<Rightarrow> failure + game" where
  "update now s =
     (if game_over s \<or> game_paused s then Inr s
      else
        let s1 = s\<lparr>direction := next_direction s\<rparr>
        in case snake s1 of
             [] \<Rightarrow> Inl IndexError
           | (head_x, head_y) # _ \<Rightarrow>
               (case delta (direction s1) of
                  (dx, dy) \<Rightarrow>
                    let new_head = (head_x + dx, head_y + dy)
                    in if off_grid new_head then
                         Inr (s1\<lparr>game_over := True,
                                 game_over_message := Some ''WALL COLLISION''\<rparr>)
                       else if new_head \<in> set (snake s1) then
                         Inr (s1\<lparr>game_over := True,
                                 game_over_message := Some ''SELF COLLISION''\<rparr>)
                       else
                         (case update_food now new_head (s1\<lparr>snake := new_head # snake s1\<rparr>) of
                            Inl f \<Rightarrow> Inl f
                          | Inr s2 \<Rightarrow> Inr (update_orange now new_head s2))))"

subsection \<open>\<open>draw\<close> and \<open>run\<close>\<close>

text \<open>
  Of \<open>draw\<close> only the assignments to \<open>self.menu_buttons\<close> in \<open>draw_menu\<close> change the
  game. They always write the same five keys, so the dictionary is these five entries
  afterwards.
\<close>

definition draw_menu :: "game \<Rightarrow> game" where
  "draw_menu s =
     (let btn_w = 220; btn_h = 48; cx = SCREEN_WIDTH div 2; start_y = 180
      in s\<lparr>menu_buttons :=
             [(''play'', (cx - btn_w div 2, start_y, btn_w, btn_h)),
              (''lvl1'', (cx - btn_w div 2, start_y + 70, 70, 40)),
              (''lvl2'', (cx - 35, start_y + 70, 70, 40)),
              (''lvl3'', (cx + btn_w div 2 - 70, start_y + 70, 70, 40)),
              (''quit'', (cx - btn_w div 2, start_y + 140, btn_w, btn_h))]\<rparr>)"

definition draw :: "game \<Rightarrow> game" where
  "draw s = (if menu_active s then draw_menu s else s)"

text \<open>
  One round of the loop of \<open>run\<close>: the events that have arrived, then, unless
  \<open>handle_input\<close> returned \<open>False\<close>, \<open>update\<close> (in the menu too) and \<open>draw\<close>.
  \<open>frames\<close> is the loop over the rounds, given each round's events and clock.
  \<open>self.clock.tick\<close> only waits; the rate it looks up in \<open>fps_map\<close> is there for the
  difficulties 1, 2 and 3, the only ones a game of the program has (\<open>level_ok\<close> below).
\<close>

definition frame :: "event list \<times> rat \<Rightarrow> game \<Rightarrow> failure + (bool \<times> game)" where
  "frame f s =
     (case handle_input (fst f) s of
        Inl e \<Rightarrow> Inl e
      | Inr (running, s1) \<Rightarrow>
          if running then
            (case update (snd f) s1 of Inl e \<Rightarrow> Inl e | Inr s2 \<Rightarrow> Inr (True, draw s2))
          else Inr (False, s1))"

fun frames :: "(event list \<times> rat) list \<Rightarrow> game \<Rightarrow> failure + (bool \<times> game)" where
  "frames [] s = Inr (True, s)"
| "frames (f # fs) s =
     (case frame f s of
        Inl e \<Rightarrow> Inl e
      | Inr (running, s') \<Rightarrow> if running then frames fs s' else Inr (False, s'))"

text \<open>The game from its construction through the given rounds.\<close>

definition play :: "int list \<Rightarrow> (event list \<times> rat) list \<Rightarrow> failure + (bool \<times> game)" where
  "play ds fs = (case init ds of Inl e \<Rightarrow> Inl e | Inr s \<Rightarrow> frames fs s)"

section \<open>What the claims speak of\<close>

subsection \<open>The games the program can be in\<close>

text \<open>
  \<open>random.randint(0, GRID_WIDTH - 1)\<close> and \<open>random.randint(0, GRID_HEIGHT - 1)\<close> return
  integers within their bounds.
\<close>

definition in_range :: "int list \<Rightarrow> bool" where
  "in_range ds = (\<forall>d\<in>set ds. 0 \<le> d \<and> d \<le> GRID_WIDTH - 1 \<and> d \<le> GRID_HEIGHT - 1)"

text \<open>
  The program constructs the game and then runs the loop of \<open>run\<close>, which handles
  events, calls \<open>update\<close> and draws. The games on its way are among these.
\<close>

inductive reachable :: "game \<Rightarrow> bool" where
  constructed: "init ds = Inr s \<Longrightarrow> in_range ds \<Longrightarrow> reachable s"
| event: "reachable s \<Longrightarrow> handle_event e s = Inr (b, s') \<Longrightarrow> reachable s'"
| tick: "reachable s \<Longrightarrow> update now s = Inr s' \<Longrightarrow> reachable s'"
| drawn: "reachable s \<Longrightarrow> reachable (draw s)"

text \<open>Calls of \<open>update\<close> in a row, one for each clock value.\<close>

fun ticks :: "rat list \<Rightarrow> game \<Rightarrow> failure + game" where
  "ticks [] s = Inr s"
| "ticks (now # nows) s =
     (case update now s of Inl f \<Rightarrow> Inl f | Inr s' \<Rightarrow> ticks nows s')"

subsection \<open>Properties of a game\<close>

text \<open>
  The body of the snake is made of cells that differ from each other, at least three,
  and after them any number of further copies of the last of them.
\<close>

definition tail_copies :: "cell list \<Rightarrow> bool" where
  "tail_copies sn = (\<exists>b k. sn = b @ replicate k (last b) \<and> distinct b \<and> 3 \<le> length b)"

definition level_ok :: "game \<Rightarrow> bool" where
  "level_ok s = (1 \<le> difficulty s \<and> difficulty s \<le> 3)"

definition sound :: "game \<Rightarrow> bool" where
  "sound s =
     (tail_copies (snake s) \<and> (\<forall>c\<in>set (snake s). \<not> off_grid c)
      \<and> food s \<notin> set (snake s) \<and> \<not> off_grid (food s)
      \<and> (orange_active s \<longrightarrow> orange_pos s \<noteq> Some (food s))
      \<and> level_ok s \<and> 0 \<le> score s \<and> in_range (rng s))"

subsection \<open>Commands\<close>


definition is_reverse :: "Direction \<Rightarrow> Direction \<Rightarrow> bool" where
  "is_reverse d d' = (delta d' = (- fst (delta d), - snd (delta d)))"

text \<open>
  The events that start a new session in the game \<open>s\<close>: in the menu the confirm key and
  a left click on the Play button, outside the menu the restart key and the three
  level keys.
\<close>

fun restarts :: "game \<Rightarrow> event \<Rightarrow> bool" where
  "restarts s (KEYDOWN k) =
     (if menu_active s then k = K_RETURN else k = K_r \<or> k = K_1 \<or> k = K_2 \<or> k = K_3)"
| "restarts s (MOUSEBUTTONDOWN b mx my) = (menu_active s \<and> b = 1 \<and> button_hit s ''play'' mx my)"
| "restarts s _ = False"

section \<open>Games played\<close>

text \<open>
  Games to evaluate the definitions on. In the first the generator puts the first food
  of the session right of the head and each food after it one cell further, so that the
  snake eats an apple in each round. With the fifth apple the orange appears, two cells
  right of the head, behind the sixth apple.
\<close>

definition demo_draws :: "int list" where
  "demo_draws = [0, 0, 11, 10, 12, 10, 13, 10, 14, 10, 15, 10, 16, 10, 17, 10, 0, 0, 3, 3]"

definition demo_rounds :: "(event list \<times> rat) list" where
  "demo_rounds = [([KEYDOWN K_RETURN], 0), ([], 1), ([], 2), ([], 3)]"

text \<open>After the four rounds of \<open>demo_rounds\<close>: four apples eaten, the fifth ahead.\<close>

definition four_apples :: game where
  "four_apples =
     \<lparr>menu_active = False, selected_level = 1, menu_buttons = [],
      apples_eaten_since_orange = 4, orange_active = False, orange_pos = None,
      orange_spawn_time = 0,
      snake = [(14, 10), (13, 10), (12, 10), (11, 10), (10, 10), (9, 10), (8, 10)],
      direction = RIGHT, next_direction = RIGHT, food = (15, 10), score = 40,
      game_over = False, game_over_message = None, difficulty = 1, game_paused = False,
      rng = [16, 10, 17, 10, 0, 0, 3, 3]\<rparr>"

text \<open>After a fifth round at clock 4: the orange has appeared, the sixth apple is ahead.\<close>

definition orange_spawned :: game where
  "orange_spawned =
     four_apples
       \<lparr>apples_eaten_since_orange := 0, orange_active := True, orange_pos := Some (17, 10),
        orange_spawn_time := 4,
        snake := [(15, 10), (14, 10), (13, 10), (12, 10), (11, 10), (10, 10), (9, 10), (8, 10)],
        food := (16, 10), score := 50, rng := [0, 0, 3, 3]\<rparr>"

text \<open>After a sixth round at clock 5: the sixth apple eaten, the orange ahead.\<close>

definition orange_ahead :: game where
  "orange_ahead =
     orange_spawned
       \<lparr>apples_eaten_since_orange := 1,
        snake := [(16, 10), (15, 10), (14, 10), (13, 10), (12, 10), (11, 10), (10, 10),
                  (9, 10), (8, 10)],
        food := (0, 0), score := 60, rng := [3, 3]\<rparr>"

text \<open>After a seventh round at clock 13/2: the orange eaten.\<close>

definition orange_eaten :: game where
  "orange_eaten =
     orange_ahead
       \<lparr>orange_active := False, orange_pos := None, orange_spawn_time := 0,
        snake := [(17, 10), (16, 10), (15, 10), (14, 10), (13, 10), (12, 10), (11, 10),
                  (10, 10), (9, 10), (9, 10), (9, 10)],
        score := 87\<rparr>"

text \<open>
  In the second game the snake runs to the right wall, turns up along it and is then
  steered right, into the wall. \<open>at_wall\<close> is the game when the last key has been
  handled, before \<open>update\<close>.
\<close>

definition wall_rounds :: "(event list \<times> rat) list" where
  "wall_rounds =
     [([KEYDOWN K_RETURN], 0), ([], 1), ([], 2), ([], 3), ([], 4), ([], 5), ([], 6), ([], 7),
      ([], 8), ([KEYDOWN K_UP], 9)]"

definition at_wall :: game where
  "at_wall =
     \<lparr>menu_active = False, selected_level = 1, menu_buttons = [],
      apples_eaten_since_orange = 0, orange_active = False, orange_pos = None,
      orange_spawn_time = 0,
      snake = [(19, 9), (19, 10), (18, 10)],
      direction = UP, next_direction = RIGHT, food = (3, 3), score = 0,
      game_over = False, game_over_message = None, difficulty = 1, game_paused = False,
      rng = []\<rparr>"

text \<open>
  In the third game the snake eats one apple, turns up and left and is then steered
  down, onto the cell its tail is on. \<open>tail_ahead\<close> is the game when the last key has
  been handled, before \<open>update\<close>.
\<close>

definition loop_rounds :: "(event list \<times> rat) list" where
  "loop_rounds = [([KEYDOWN K_RETURN], 0), ([KEYDOWN K_UP], 1), ([KEYDOWN K_LEFT], 2)]"

definition tail_ahead :: game where
  "tail_ahead =
     \<lparr>menu_active = False, selected_level = 1, menu_buttons = [],
      apples_eaten_since_orange = 1, orange_active = False, orange_pos = None,
      orange_spawn_time = 0,
      snake = [(10, 9), (11, 9), (11, 10), (10, 10)],
      direction = LEFT, next_direction = DOWN, food = (3, 3), score = 10,
      game_over = False, game_over_message = None, difficulty = 1, game_paused = False,
      rng = []\<rparr>"

section \<open>The games played are games of the program\<close>

lemma demo_played:
  "play demo_draws demo_rounds = Inr (True, four_apples)"
  "update 4 four_apples = Inr orange_spawned"
  "update 5 orange_spawned = Inr orange_ahead"
  "update (13 / 2) orange_ahead = Inr orange_eaten"
  by code_simp+

lemma wall_played:
  "play [0, 0, 3, 3] wall_rounds = Inr (True, at_wall\<lparr>next_direction := UP\<rparr>)"
  "handle_event (KEYDOWN K_RIGHT) (at_wall\<lparr>next_direction := UP\<rparr>) = Inr (True, at_wall)"
  by code_simp+

lemma loop_played:
  "play [0, 0, 11, 10, 3, 3] loop_rounds = Inr (True, tail_ahead\<lparr>next_direction := LEFT\<rparr>)"
  "handle_event (KEYDOWN K_DOWN) (tail_ahead\<lparr>next_direction := LEFT\<rparr>) = Inr (True, tail_ahead)"
  by code_simp+

section \<open>What holds of every game of the program\<close>

subsection \<open>Spawning\<close>

lemma spawn_food_Inr:
  "spawn_food sn oa op ds = Inr (c, ds') \<Longrightarrow>
   c \<notin> set sn \<and> (oa \<longrightarrow> op \<noteq> Some c) \<and> fst c \<in> set ds \<and> snd c \<in> set ds
   \<and> set ds' \<subseteq> set ds"
  by (induction sn oa op ds rule: spawn_food.induct) (auto split: if_splits)

lemma spawn_orange_Inr:
  "spawn_orange sn fd ds = Inr (c, ds') \<Longrightarrow> c \<notin> set sn \<and> c \<noteq> fd \<and> set ds' \<subseteq> set ds"
  by (induction sn fd ds rule: spawn_orange.induct) (auto split: if_splits)

lemma spawn_food_in_range:
  assumes "spawn_food sn oa op ds = Inr (c, ds')" and "in_range ds"
  shows "\<not> off_grid c" and "in_range ds'"
  using spawn_food_Inr [OF assms(1)] assms(2)
  by (auto simp: in_range_def off_grid_def)

lemma spawn_orange_in_range:
  "spawn_orange sn fd ds = Inr (c, ds') \<Longrightarrow> in_range ds \<Longrightarrow> in_range ds'"
  by (auto simp: in_range_def dest!: spawn_orange_Inr)

subsection \<open>The shape of the body\<close>

lemma butlast_replicate_Suc: "butlast (replicate (Suc j) x) = replicate j x"
  by (induction j) auto

lemma tail_copies_nonempty: "tail_copies sn \<Longrightarrow> sn \<noteq> []"
  by (auto simp: tail_copies_def)

lemma tail_copies_Cons:
  assumes "tail_copies sn" and h: "h \<notin> set sn"
  shows "tail_copies (h # sn)"
proof -
  from assms obtain b k where sn: "sn = b @ replicate k (last b)"
    and b: "distinct b" "3 \<le> length b"
    by (auto simp: tail_copies_def)
  from b have ne: "b \<noteq> []" by auto
  have "h # sn = (h # b) @ replicate k (last (h # b))"
    using sn ne by simp
  moreover have "distinct (h # b)"
    using h b sn by auto
  moreover have "3 \<le> length (h # b)"
    using b by simp
  ultimately show ?thesis
    unfolding tail_copies_def by blast
qed

lemma tail_copies_butlast:
  assumes "tail_copies sn" and h: "h \<notin> set sn"
  shows "tail_copies (butlast (h # sn))"
proof -
  from assms obtain b k where sn: "sn = b @ replicate k (last b)"
    and b: "distinct b" "3 \<le> length b"
    by (auto simp: tail_copies_def)
  from b have ne: "b \<noteq> []" by auto
  show ?thesis
  proof (cases k)
    case 0
    then have "butlast (h # sn) = (h # butlast b) @ replicate 0 (last (h # butlast b))"
      using sn ne by simp
    moreover have "distinct (h # butlast b)"
      using h b sn 0 by (auto simp: distinct_butlast dest: in_set_butlastD)
    moreover have "3 \<le> length (h # butlast b)"
      using b by simp
    ultimately show ?thesis
      unfolding tail_copies_def by blast
  next
    case (Suc j)
    then have "butlast (h # sn) = (h # b) @ replicate j (last (h # b))"
      using sn ne by (simp add: butlast_append butlast_replicate_Suc del: replicate_Suc)
    moreover have "distinct (h # b)"
      using h b sn by auto
    moreover have "3 \<le> length (h # b)"
      using b by simp
    ultimately show ?thesis
      unfolding tail_copies_def by blast
  qed
qed

lemma tail_copies_append_tail:
  assumes "tail_copies sn"
  shows "tail_copies (append_tail sn)"
proof -
  from assms obtain b k where sn: "sn = b @ replicate k (last b)"
    and b: "distinct b" "3 \<le> length b"
    by (auto simp: tail_copies_def)
  from b have ne: "b \<noteq> []" by auto
  have "last sn = last b"
    using sn ne by (cases k) simp_all
  then have "append_tail sn = b @ replicate (Suc k) (last b)"
    using sn by (simp add: append_tail_def replicate_append_same)
  with b show ?thesis
    unfolding tail_copies_def by blast
qed

lemma tail_copies_start: "tail_copies [(10, 10), (9, 10), (8, 10)]"
proof -
  have "[(10::int, 10::int), (9, 10), (8, 10)]
          = [(10, 10), (9, 10), (8, 10)] @ replicate 0 (last [(10, 10), (9, 10), (8, 10)])
        \<and> distinct [(10::int, 10::int), (9, 10), (8, 10)]
        \<and> 3 \<le> length [(10::int, 10::int), (9, 10), (8, 10)]"
    by simp
  then show ?thesis
    unfolding tail_copies_def by blast
qed

lemma set_append_tail: "sn \<noteq> [] \<Longrightarrow> set (append_tail sn) = set sn"
  by (auto simp: append_tail_def)

subsection \<open>Every operation keeps a sound game sound\<close>

lemma reset_game_sound:
  assumes "reset_game s = Inr s'" and "level_ok s" and "in_range (rng s)"
  shows "sound s'"
proof -
  let ?sn = "[(10::int, 10::int), (9, 10), (8, 10)]"
  from assms(1) obtain c ds where sp: "spawn_food ?sn (orange_active s) (orange_pos s) (rng s) = Inr (c, ds)"
    and s': "s' = s\<lparr>snake := ?sn, direction := RIGHT, next_direction := RIGHT, food := c,
                     rng := ds, score := 0, game_over := False, game_over_message := None\<rparr>"
    by (auto simp: reset_game_def Let_def GRID_WIDTH_def GRID_HEIGHT_def
        split: sum.splits prod.splits)
  from spawn_food_Inr [OF sp] spawn_food_in_range [OF sp assms(3)]
  have "c \<notin> set ?sn" "orange_active s \<longrightarrow> orange_pos s \<noteq> Some c" "\<not> off_grid c" "in_range ds"
    by simp_all
  moreover have "\<forall>c\<in>set ?sn. \<not> off_grid c"
    by (simp add: off_grid_def GRID_WIDTH_def GRID_HEIGHT_def)
  ultimately show ?thesis
    using assms(2) tail_copies_start by (simp add: s' sound_def level_ok_def)
qed

lemma sound_level_ok: "sound s \<Longrightarrow> level_ok s"
  by (simp add: sound_def)

lemma sound_in_range: "sound s \<Longrightarrow> in_range (rng s)"
  by (simp add: sound_def)

lemma level_ok_simps:
  "level_ok (s\<lparr>menu_active := m\<rparr>) = level_ok s"
  "level_ok (s\<lparr>difficulty := n\<rparr>) = (1 \<le> n \<and> n \<le> 3)"
  by (simp_all add: level_ok_def)

lemma sound_flags:
  "sound (s\<lparr>game_paused := p\<rparr>) = sound s"
  "sound (s\<lparr>menu_active := m\<rparr>) = sound s"
  "sound (s\<lparr>next_direction := d\<rparr>) = sound s"
  "sound (s\<lparr>direction := d\<rparr>) = sound s"
  "sound (s\<lparr>game_over := g\<rparr>) = sound s"
  "sound (s\<lparr>game_over_message := msg\<rparr>) = sound s"
  "sound (s\<lparr>menu_buttons := bs\<rparr>) = sound s"
  "sound (s\<lparr>selected_level := n\<rparr>) = sound s"
  by (simp_all add: sound_def level_ok_def)

lemma sound_difficulty: "sound s \<Longrightarrow> 1 \<le> n \<Longrightarrow> n \<le> 3 \<Longrightarrow> sound (s\<lparr>difficulty := n\<rparr>)"
  by (simp add: sound_def level_ok_def)

lemma keydown_sound:
  assumes "sound s" and "keydown k s = Inr s'"
  shows "sound s'"
proof -
  have r: "\<And>t t'. reset_game t = Inr t' \<Longrightarrow> level_ok t \<Longrightarrow> in_range (rng t)
             \<Longrightarrow> sound (t'\<lparr>game_paused := False\<rparr>)"
    by (simp add: sound_flags reset_game_sound)
  from assms sound_level_ok [OF assms(1)] sound_in_range [OF assms(1)] show ?thesis
    by (cases k)
      (auto simp: steer_def set_difficulty_def sound_flags level_ok_simps
        split: sum.splits if_splits intro: r)
qed

lemma select_level_sound: "sound s \<Longrightarrow> 1 \<le> n \<Longrightarrow> n \<le> 3 \<Longrightarrow> sound (select_level n s)"
  by (simp add: sound_def select_level_def level_ok_def)

lemma menu_keydown_sound:
  assumes "sound s" and "menu_keydown k s = Inr s'"
  shows "sound s'"
  using assms sound_level_ok [OF assms(1)] sound_in_range [OF assms(1)]
  by (cases k) (auto simp: select_level_sound level_ok_simps intro: reset_game_sound)

lemma level_buttons_sound:
  "sound s \<Longrightarrow> \<forall>(k, n)\<in>set ks. 1 \<le> n \<and> n \<le> 3 \<Longrightarrow> sound (level_buttons ks mx my s)"
proof (induction ks mx my s rule: level_buttons.induct)
  case (1 mx my s)
  then show ?case by simp
next
  case (2 k n ks mx my s)
  have "sound (s\<lparr>selected_level := n, difficulty := n\<rparr>)"
    using 2(2,3) by (simp add: sound_def level_ok_def)
  with 2 show ?case by simp
qed

lemma menu_click_sound:
  assumes "sound s" and "menu_click mx my s = Inr (b, s')"
  shows "sound s'"
proof -
  define r where
    "r = (if button_hit s ''play'' mx my then reset_game (s\<lparr>menu_active := False\<rparr>) else Inr s)"
  from assms(2) obtain s1 where r: "r = Inr s1"
    and s': "s' = s1 \<or> s' = level_buttons [(''lvl1'', 1), (''lvl2'', 2), (''lvl3'', 3)] mx my s1"
    by (auto simp: menu_click_def r_def [symmetric] split: sum.splits if_splits
        simp del: level_buttons.simps)
  have "sound s1"
    using r assms(1) sound_level_ok [OF assms(1)] sound_in_range [OF assms(1)]
    by (auto simp: r_def level_ok_simps split: if_splits intro: reset_game_sound)
  then have "sound (level_buttons [(''lvl1'', 1), (''lvl2'', 2), (''lvl3'', 3)] mx my s1)"
    by (rule level_buttons_sound) simp
  with s' \<open>sound s1\<close> show ?thesis
    by (auto simp del: level_buttons.simps)
qed

lemma handle_event_sound: "sound s \<Longrightarrow> handle_event e s = Inr (b, s') \<Longrightarrow> sound s'"
  by (cases e) (auto simp: continue_def split: sum.splits if_splits
      dest: menu_click_sound keydown_sound menu_keydown_sound)

lemma draw_sound: "sound s \<Longrightarrow> sound (draw s)"
  by (simp add: draw_def draw_menu_def sound_flags Let_def)

lemma init_sound:
  assumes "init ds = Inr s" and "in_range ds"
  shows "sound s"
proof -
  from assms obtain t where r: "reset_game (before_reset ds) = Inr t"
    and s: "s = t\<lparr>difficulty := 1, game_over_message := None, game_paused := False\<rparr>"
    by (auto simp: init_def split: sum.splits)
  have "sound t"
    using r by (rule reset_game_sound) (simp_all add: level_ok_def before_reset_def assms(2))
  then show ?thesis
    by (simp add: s sound_flags sound_difficulty)
qed

text \<open>
  How \<open>update\<close> gets past the two collision checks: the head is inserted, then come the
  food check and the orange check.
\<close>

lemma new_head_of_eq:
  "snake s = (hx, hy) # rest \<Longrightarrow> delta (next_direction s) = (dx, dy) \<Longrightarrow>
   new_head_of s = (hx + dx, hy + dy)"
  by (simp add: new_head_of_def)

lemma update_moves:
  assumes "update now s = Inr s'" and "\<not> game_over s" and "\<not> game_paused s"
    and "snake s \<noteq> []" and "\<not> off_grid (new_head_of s)"
    and "new_head_of s \<notin> set (snake s)"
  obtains s2 where
    "update_food now (new_head_of s)
       (s\<lparr>direction := next_direction s, snake := new_head_of s # snake s\<rparr>) = Inr s2"
    and "s' = update_orange now (new_head_of s) s2"
proof -
  obtain hx hy rest where sn: "snake s = (hx, hy) # rest"
    using assms(4) by (cases "snake s") auto
  obtain dx dy where d: "delta (next_direction s) = (dx, dy)"
    by (cases "delta (next_direction s)")
  note nh = new_head_of_eq [OF sn d]
  from assms(1-3,5,6) that show ?thesis
    by (auto simp: update_def sn d nh Let_def split: sum.splits)
qed

lemma update_collides:
  assumes "\<not> game_over s" and "\<not> game_paused s" and "snake s \<noteq> []"
  shows "off_grid (new_head_of s) \<Longrightarrow>
         update now s = Inr (s\<lparr>direction := next_direction s, game_over := True,
           game_over_message := Some ''WALL COLLISION''\<rparr>)"
    and "\<not> off_grid (new_head_of s) \<Longrightarrow> new_head_of s \<in> set (snake s) \<Longrightarrow>
         update now s = Inr (s\<lparr>direction := next_direction s, game_over := True,
           game_over_message := Some ''SELF COLLISION''\<rparr>)"
proof -
  obtain hx hy rest where sn: "snake s = (hx, hy) # rest"
    using assms(3) by (cases "snake s") auto
  obtain dx dy where d: "delta (next_direction s) = (dx, dy)"
    by (cases "delta (next_direction s)")
  note nh = new_head_of_eq [OF sn d]
  show "off_grid (new_head_of s) \<Longrightarrow>
         update now s = Inr (s\<lparr>direction := next_direction s, game_over := True,
           game_over_message := Some ''WALL COLLISION''\<rparr>)"
    using assms(1,2) by (simp add: update_def sn d nh Let_def)
  show "\<not> off_grid (new_head_of s) \<Longrightarrow> new_head_of s \<in> set (snake s) \<Longrightarrow>
         update now s = Inr (s\<lparr>direction := next_direction s, game_over := True,
           game_over_message := Some ''SELF COLLISION''\<rparr>)"
    using assms(1,2) by (simp add: update_def sn d nh [symmetric] Let_def)
qed

text \<open>What the food check does, case by case.\<close>

lemma update_food_miss:
  "h \<noteq> food s \<Longrightarrow> update_food now h s = Inr (s\<lparr>snake := butlast (snake s)\<rparr>)"
  by (simp add: update_food_def)

lemma update_food_hit:
  assumes "update_food now h s = Inr s'" and "h = food s"
  obtains c ds where
    "spawn_food (snake s) (orange_active s) (orange_pos s) (rng s) = Inr (c, ds)"
    and "\<not> (apples_eaten_since_orange s + 1 \<ge> 5 \<and> \<not> orange_active s)"
    and "s' = s\<lparr>score := score s + 10 * difficulty s, food := c, rng := ds,
                  apples_eaten_since_orange := apples_eaten_since_orange s + 1\<rparr>"
  | c ds p ds' where
    "spawn_food (snake s) (orange_active s) (orange_pos s) (rng s) = Inr (c, ds)"
    and "apples_eaten_since_orange s + 1 \<ge> 5" and "\<not> orange_active s"
    and "spawn_orange (snake s) c ds = Inr (p, ds')"
    and "s' = s\<lparr>score := score s + 10 * difficulty s, food := c, rng := ds',
                  apples_eaten_since_orange := 0, orange_pos := Some p,
                  orange_active := True, orange_spawn_time := now\<rparr>"
  using assms
  by (auto simp: update_food_def Let_def split: sum.splits prod.splits if_splits)

lemma update_food_sound:
  assumes "sound s" and "h \<notin> set (snake s)" and "\<not> off_grid h"
    and "update_food now h (s\<lparr>snake := h # snake s\<rparr>) = Inr s'"
  shows "sound s'"
proof (cases "h = food s")
  case True
  let ?s = "s\<lparr>snake := h # snake s\<rparr>"
  have tc: "tail_copies (h # snake s)"
    using assms(1,2) by (simp add: sound_def tail_copies_Cons)
  have grid: "\<forall>c\<in>set (h # snake s). \<not> off_grid c"
    using assms(1,3) by (simp add: sound_def)
  have lv: "level_ok s" "0 \<le> score s" "in_range (rng s)"
    using assms(1) by (simp_all add: sound_def)
  then have sc: "0 \<le> score s + 10 * difficulty s"
    by (simp add: level_ok_def)
  from assms(4) True have "update_food now h ?s = Inr s'" "h = food ?s"
    by simp_all
  then show ?thesis
  proof (cases rule: update_food_hit)
    case (1 c ds)
    from spawn_food_Inr [OF 1(1)] spawn_food_in_range [OF 1(1)] lv(3)
    have "c \<notin> set (h # snake s)" "orange_active s \<longrightarrow> orange_pos s \<noteq> Some c"
      "\<not> off_grid c" "in_range ds"
      by simp_all
    with tc grid lv sc show ?thesis
      by (simp add: 1(3) sound_def level_ok_def)
  next
    case (2 c ds p ds')
    from spawn_food_Inr [OF 2(1)] spawn_food_in_range [OF 2(1)] lv(3)
    have c: "c \<notin> set (h # snake s)" "\<not> off_grid c" "in_range ds"
      by simp_all
    from spawn_orange_Inr [OF 2(4)] spawn_orange_in_range [OF 2(4)] c(3)
    have "p \<noteq> c" "in_range ds'"
      by simp_all
    with c tc grid lv sc show ?thesis
      by (simp add: 2(5) sound_def level_ok_def)
  qed
next
  case False
  from False assms(4) have s': "s' = s\<lparr>snake := butlast (h # snake s)\<rparr>"
    by (simp add: update_food_miss del: butlast.simps)
  have "tail_copies (butlast (h # snake s))"
    using assms(1,2) by (simp add: sound_def tail_copies_butlast del: butlast.simps)
  moreover have "\<forall>c\<in>set (butlast (h # snake s)). \<not> off_grid c"
    using assms(1,3) by (auto simp: sound_def simp del: butlast.simps dest!: in_set_butlastD)
  moreover have "food s \<notin> set (butlast (h # snake s))"
    using assms(1) False by (auto simp: sound_def simp del: butlast.simps dest!: in_set_butlastD)
  ultimately show ?thesis
    using assms(1) by (simp add: s' sound_def level_ok_def del: butlast.simps)
qed

lemma orange_score_nonneg: "0 \<le> orange_score e"
  by (simp add: orange_score_def Let_def max_def)

lemma update_orange_sound:
  assumes "sound s"
  shows "sound (update_orange now h s)"
proof -
  from assms have ne: "snake s \<noteq> []" "append_tail (snake s) \<noteq> []"
    by (auto simp: sound_def append_tail_def dest: tail_copies_nonempty)
  have "0 \<le> score s + orange_score e" for e
    using assms orange_score_nonneg [of e] by (simp add: sound_def)
  with assms ne show ?thesis
    by (simp add: update_orange_def Let_def sound_def level_ok_def set_append_tail
        tail_copies_append_tail)
qed

lemma sound_snake_nonempty: "sound s \<Longrightarrow> snake s \<noteq> []"
  by (auto simp: sound_def dest: tail_copies_nonempty)

lemma update_sound:
  assumes "sound s" and "update now s = Inr s'"
  shows "sound s'"
proof (cases "game_over s \<or> game_paused s")
  case True
  with assms show ?thesis
    by (simp add: update_def)
next
  case False
  note ne = sound_snake_nonempty [OF assms(1)]
  show ?thesis
  proof (cases "off_grid (new_head_of s) \<or> new_head_of s \<in> set (snake s)")
    case True
    with False ne assms(2) update_collides [of s now]
    have "s' = s\<lparr>direction := next_direction s, game_over := True,
                  game_over_message := Some ''WALL COLLISION''\<rparr>
          \<or> s' = s\<lparr>direction := next_direction s, game_over := True,
                  game_over_message := Some ''SELF COLLISION''\<rparr>"
      by auto
    with assms(1) show ?thesis
      by (auto simp: sound_flags)
  next
    case nocoll: False
    let ?s1 = "s\<lparr>direction := next_direction s\<rparr>"
    from assms(2) False ne nocoll obtain s2 where
      f: "update_food now (new_head_of s)
            (s\<lparr>direction := next_direction s, snake := new_head_of s # snake s\<rparr>) = Inr s2"
      and s': "s' = update_orange now (new_head_of s) s2"
      by (auto elim: update_moves)
    have "sound ?s1"
      using assms(1) by (simp add: sound_flags)
    moreover have "new_head_of s \<notin> set (snake ?s1)"
      using nocoll by simp
    moreover have "update_food now (new_head_of s) (?s1\<lparr>snake := new_head_of s # snake ?s1\<rparr>) = Inr s2"
      using f by simp
    ultimately have "sound s2"
      using nocoll by (blast intro: update_food_sound)
    then show ?thesis
      by (simp add: s' update_orange_sound)
  qed
qed

lemma reachable_sound: "reachable s \<Longrightarrow> sound s"
  by (induction rule: reachable.induct)
    (auto intro: init_sound handle_event_sound update_sound draw_sound)

subsection \<open>The rounds of the loop stay among the games of the program\<close>

lemma handle_input_reachable:
  "reachable s \<Longrightarrow> handle_input es s = Inr (b, s') \<Longrightarrow> reachable s'"
proof (induction es arbitrary: s)
  case Nil
  then show ?case by simp
next
  case (Cons e es)
  then show ?case
    by (auto split: sum.splits prod.splits if_splits intro: reachable.event)
qed

lemma frame_reachable: "reachable s \<Longrightarrow> frame f s = Inr (b, s') \<Longrightarrow> reachable s'"
  by (auto simp: frame_def split: sum.splits prod.splits if_splits
      intro: reachable.drawn reachable.tick handle_input_reachable)

lemma frames_reachable: "reachable s \<Longrightarrow> frames fs s = Inr (b, s') \<Longrightarrow> reachable s'"
proof (induction fs arbitrary: s)
  case Nil
  then show ?case by simp
next
  case (Cons f fs)
  then show ?case
    by (auto split: sum.splits prod.splits if_splits intro: frame_reachable)
qed

lemma play_reachable: "play ds fs = Inr (b, s) \<Longrightarrow> in_range ds \<Longrightarrow> reachable s"
  by (auto simp: play_def split: sum.splits intro: frames_reachable reachable.constructed)

lemma ticks_reachable: "reachable s \<Longrightarrow> ticks nows s = Inr s' \<Longrightarrow> reachable s'"
proof (induction nows arbitrary: s)
  case Nil
  then show ?case by simp
next
  case (Cons now nows)
  then show ?case
    by (auto split: sum.splits intro: reachable.tick)
qed

lemma reachable_four_apples: "reachable four_apples"
  by (rule play_reachable [OF demo_played(1)]) (simp add: in_range_def demo_draws_def GRID_WIDTH_def GRID_HEIGHT_def)

lemma reachable_orange_spawned: "reachable orange_spawned"
  by (rule reachable.tick [OF reachable_four_apples demo_played(2)])

lemma reachable_orange_ahead: "reachable orange_ahead"
  by (rule reachable.tick [OF reachable_orange_spawned demo_played(3)])

lemma reachable_orange_eaten: "reachable orange_eaten"
  by (rule reachable.tick [OF reachable_orange_ahead demo_played(4)])

lemma reachable_at_wall: "reachable at_wall"
proof -
  have "reachable (at_wall\<lparr>next_direction := UP\<rparr>)"
    by (rule play_reachable [OF wall_played(1)]) (simp add: in_range_def GRID_WIDTH_def GRID_HEIGHT_def)
  then show ?thesis
    by (rule reachable.event [OF _ wall_played(2)])
qed

lemma reachable_tail_ahead: "reachable tail_ahead"
proof -
  have "reachable (tail_ahead\<lparr>next_direction := LEFT\<rparr>)"
    by (rule play_reachable [OF loop_played(1)]) (simp add: in_range_def GRID_WIDTH_def GRID_HEIGHT_def)
  then show ?thesis
    by (rule reachable.event [OF _ loop_played(2)])
qed

section \<open>The bonus reward\<close>




lemma update_orange_score:
  "score (update_orange now h s) =
     (if orange_active s \<and> Some h = orange_pos s
      then score s + orange_score (now - orange_spawn_time s) else score s)"
  by (simp add: update_orange_def Let_def)

lemma update_food_score:
  "update_food now h s = Inr s' \<Longrightarrow>
   score s' = (if h = food s then score s + 10 * difficulty s else score s)"
  by (auto simp: update_food_def Let_def split: if_splits sum.splits prod.splits)





section \<open>Starting over\<close>

text \<open>
  C2 says that \<open>reset_game\<close> leaves no orange active and the count of apples at 0.
  \<open>__init__\<close> sets both before the first session, but \<open>reset_game\<close> assigns neither
  \<open>orange_active\<close>, \<open>orange_pos\<close> nor \<open>apples_eaten_since_orange\<close>: started over from
  \<open>orange_ahead\<close> (by \<open>reset_game\<close> itself or by the restart key), the game has a fresh
  snake and score 0, and still the orange of the session before at (17, 10) and one
  apple counted.
\<close>

theorem reset_keeps_orange:
  "map_sum id snake (reset_game orange_ahead) = Inr [(10, 10), (9, 10), (8, 10)]
   \<and> map_sum id score (reset_game orange_ahead) = Inr 0
   \<and> map_sum id orange_active (reset_game orange_ahead) = Inr True
   \<and> map_sum id orange_pos (reset_game orange_ahead) = Inr (Some (17, 10))
   \<and> map_sum id apples_eaten_since_orange (reset_game orange_ahead) = Inr 1
   \<and> map_sum id (orange_active \<circ> snd) (handle_event (KEYDOWN K_r) orange_ahead) = Inr True
   \<and> map_sum id (apples_eaten_since_orange \<circ> snd) (handle_event (KEYDOWN K_r) orange_ahead)
       = Inr 1"
  by code_simp

section \<open>The body of the snake\<close>

text \<open>
  C3 says that the cells of the body differ from each other whenever the collision
  checks of a round are about to run. Eating the orange appends the last cell twice:
  in the game played above the body then ends in three cells (9, 10), and the game
  goes on from there.
\<close>

theorem body_repeats_after_orange:
  "play demo_draws (demo_rounds @ [([], 4), ([], 5), ([], 13 / 2)]) = Inr (True, orange_eaten)
   \<and> \<not> game_over orange_eaten \<and> \<not> game_paused orange_eaten
   \<and> \<not> distinct (snake orange_eaten)"
  by code_simp

text \<open>
  C3, amended: in every game the program can be in, the body of the snake consists of
  at least three cells that differ from each other, followed by zero or more further
  copies of the last of them (the copies that eating an orange appends).
\<close>

theorem body_distinct_before_copies:
  assumes "reachable s"
  shows "\<exists>b k. snake s = b @ replicate k (last b) \<and> distinct b \<and> 3 \<le> length b"
  using reachable_sound [OF assms] by (simp add: sound_def tail_copies_def)

theorem body_distinct_before_copies_witness:
  "reachable orange_eaten
   \<and> (\<exists>b k. snake orange_eaten = b @ replicate k (last b) \<and> distinct b \<and> 3 \<le> length b)"
  using body_distinct_before_copies [OF reachable_orange_eaten] reachable_orange_eaten
  by simp

section \<open>Hitting the wall\<close>

text \<open>
  C4 says that a round in which the new head is off the grid ends the game and changes
  nothing else, the current direction included. \<open>update\<close> assigns the pending direction
  to the current one before it looks at the wall: the snake that runs up along the
  right wall and is steered right dies with its current direction turned from up to
  right.
\<close>

theorem wall_turn_changes_direction:
  "\<not> game_over at_wall \<and> \<not> game_paused at_wall \<and> off_grid (new_head_of at_wall)
   \<and> direction at_wall = UP
   \<and> map_sum id direction (update 10 at_wall) = Inr RIGHT
   \<and> map_sum id game_over_message (update 10 at_wall) = Inr (Some ''WALL COLLISION'')"
  by code_simp

text \<open>
  C4, amended: when the game is neither over nor paused and the new head is off the
  grid, whatever the length of the snake, \<open>update\<close> ends the game with the message
  of the wall collision and makes the pending direction the current one; nothing else
  changes: the body, the pending direction, the food, the orange and the score are as
  before.
\<close>

theorem wall_collision:
  assumes "\<not> game_over s" and "\<not> game_paused s" and "snake s \<noteq> []"
    and "off_grid (new_head_of s)"
  shows "update now s = Inr (s\<lparr>direction := next_direction s, game_over := True,
           game_over_message := Some ''WALL COLLISION''\<rparr>)"
  using assms by (rule update_collides(1))

theorem wall_collision_witness:
  "update 10 at_wall = Inr (at_wall\<lparr>direction := RIGHT, game_over := True,
     game_over_message := Some ''WALL COLLISION''\<rparr>)"
  using wall_collision [of at_wall 10]
  by (simp add: at_wall_def new_head_of_def off_grid_def GRID_WIDTH_def GRID_HEIGHT_def)

section \<open>The pause\<close>






section \<open>Biting itself\<close>

text \<open>
  C6: in a game of the program that is neither over nor paused, when the new head is
  one of the cells of the body as it is before the round moves it, the cell of the
  tail included, \<open>update\<close> ends the game with the message of the self collision.
\<close>

theorem self_collision:
  assumes "reachable s" and "\<not> game_over s" and "\<not> game_paused s"
    and "new_head_of s \<in> set (snake s)"
  shows "update now s = Inr (s\<lparr>direction := next_direction s, game_over := True,
           game_over_message := Some ''SELF COLLISION''\<rparr>)"
proof -
  note snd = reachable_sound [OF assms(1)]
  from snd assms(4) have "\<not> off_grid (new_head_of s)"
    by (simp add: sound_def)
  with assms(2,3) sound_snake_nonempty [OF snd] show ?thesis
    using assms(4) by (rule update_collides(2))
qed

theorem self_collision_witness:
  "reachable tail_ahead \<and> new_head_of tail_ahead = last (snake tail_ahead)
   \<and> update 3 tail_ahead = Inr (tail_ahead\<lparr>direction := DOWN, game_over := True,
       game_over_message := Some ''SELF COLLISION''\<rparr>)"
  using self_collision [OF reachable_tail_ahead, of 3] reachable_tail_ahead
  by (simp add: tail_ahead_def new_head_of_def)

section \<open>Eating an apple\<close>





section \<open>Steering\<close>




lemma is_reverse_iff:
  "is_reverse d d' \<longleftrightarrow>
   (d, d') \<in> {(UP, DOWN), (DOWN, UP), (LEFT, RIGHT), (RIGHT, LEFT)}"
  by (cases d; cases d') (simp_all add: is_reverse_def)



section \<open>The score\<close>

lemma update_collision:
  assumes "update now s = Inr s'" and "\<not> game_over s" and "\<not> game_paused s"
    and "snake s \<noteq> []" and "off_grid (new_head_of s) \<or> new_head_of s \<in> set (snake s)"
  obtains msg where
    "s' = s\<lparr>direction := next_direction s, game_over := True, game_over_message := Some msg\<rparr>"
proof (cases "off_grid (new_head_of s)")
  case True
  from update_collides(1) [OF assms(2-4) True, of now] assms(1) that show ?thesis
    by simp
next
  case False
  with assms(5) have "new_head_of s \<in> set (snake s)"
    by simp
  from update_collides(2) [OF assms(2-4) False this, of now] assms(1) that show ?thesis
    by simp
qed

lemma update_score_mono:
  assumes "sound s" and "update now s = Inr s'"
  shows "score s \<le> score s'"
proof (cases "game_over s \<or> game_paused s")
  case True
  with assms(2) show ?thesis
    by (simp add: update_def)
next
  case False
  note ne = sound_snake_nonempty [OF assms(1)]
  show ?thesis
  proof (cases "off_grid (new_head_of s) \<or> new_head_of s \<in> set (snake s)")
    case True
    from assms(2) False ne True obtain msg where
      "s' = s\<lparr>direction := next_direction s, game_over := True, game_over_message := Some msg\<rparr>"
      by (auto elim: update_collision)
    then show ?thesis
      by simp
  next
    case nocoll: False
    from assms(2) False ne nocoll obtain s2 where
      f: "update_food now (new_head_of s)
            (s\<lparr>direction := next_direction s, snake := new_head_of s # snake s\<rparr>) = Inr s2"
      and s': "s' = update_orange now (new_head_of s) s2"
      by (auto elim: update_moves)
    have "0 \<le> 10 * difficulty s"
      using assms(1) by (simp add: sound_def level_ok_def)
    with update_food_score [OF f] have "score s \<le> score s2"
      by (simp split: if_splits)
    also have "score s2 \<le> score s'"
      using orange_score_nonneg by (simp add: s' update_orange_score)
    finally show ?thesis .
  qed
qed

lemma ticks_score_mono: "reachable s \<Longrightarrow> ticks nows s = Inr s' \<Longrightarrow> score s \<le> score s'"
proof (induction nows arbitrary: s)
  case Nil
  then show ?case by simp
next
  case (Cons now nows)
  from Cons.prems(2) obtain s1 where u: "update now s = Inr s1" and t: "ticks nows s1 = Inr s'"
    by (auto split: sum.splits)
  have "score s \<le> score s1"
    using Cons.prems(1) u by (blast intro: update_score_mono reachable_sound)
  also have "score s1 \<le> score s'"
    using Cons.prems(1) u t by (blast intro: Cons.IH reachable.tick)
  finally show ?case .
qed

text \<open>What \<open>reset_game\<close> assigns, and what it leaves as it is.\<close>

lemma reset_game_fields:
  assumes "reset_game s = Inr s'"
  shows "score s' = 0" and "snake s' = [(10, 10), (9, 10), (8, 10)]"
    and "difficulty s' = difficulty s"
    and "apples_eaten_since_orange s' = apples_eaten_since_orange s"
    and "orange_active s' = orange_active s" and "orange_pos s' = orange_pos s"
    and "orange_spawn_time s' = orange_spawn_time s"
  using assms
  by (auto simp: reset_game_def Let_def GRID_WIDTH_def GRID_HEIGHT_def
      split: sum.splits prod.splits)

lemma level_buttons_fields:
  "score (level_buttons ks mx my s) = score s"
  "apples_eaten_since_orange (level_buttons ks mx my s) = apples_eaten_since_orange s"
  "orange_active (level_buttons ks mx my s) = orange_active s"
  "orange_pos (level_buttons ks mx my s) = orange_pos s"
  by (induction ks mx my s rule: level_buttons.induct) simp_all

lemma keydown_score:
  "keydown k s = Inr s' \<Longrightarrow>
   score s' = (if k = K_r \<or> k = K_1 \<or> k = K_2 \<or> k = K_3 then 0 else score s)"
  by (cases k)
    (auto simp: steer_def set_difficulty_def split: sum.splits if_splits
      dest: reset_game_fields(1))

lemma menu_keydown_score:
  "menu_keydown k s = Inr s' \<Longrightarrow> score s' = (if k = K_RETURN then 0 else score s)"
  by (cases k) (auto simp: select_level_def dest: reset_game_fields(1))

lemma menu_click_score:
  "menu_click mx my s = Inr (b, s') \<Longrightarrow>
   score s' = (if button_hit s ''play'' mx my then 0 else score s)"
  by (auto simp: menu_click_def level_buttons_fields split: sum.splits if_splits
      simp del: level_buttons.simps dest: reset_game_fields(1))

lemma handle_event_score:
  "handle_event e s = Inr (b, s') \<Longrightarrow> score s' = (if restarts s e then 0 else score s)"
  by (cases e)
    (auto simp: continue_def split: sum.splits if_splits
      dest: keydown_score menu_keydown_score menu_click_score)

text \<open>
  C9: in every game of the program the score is an integer not below 0; through any
  number of calls of \<open>update\<close> in a row it does not fall; and an event leaves it as it
  is unless the event starts a new session, which sets it to 0.
\<close>

theorem score_never_falls:
  assumes "reachable s"
  shows "0 \<le> score s
         \<and> (\<forall>nows s'. ticks nows s = Inr s' \<longrightarrow> score s \<le> score s')
         \<and> (\<forall>e b s'. handle_event e s = Inr (b, s') \<longrightarrow>
               score s' = (if restarts s e then 0 else score s))"
  using reachable_sound [OF assms] assms
  by (auto simp: sound_def dest: ticks_score_mono handle_event_score)

theorem score_never_falls_witness:
  "reachable four_apples \<and> 0 \<le> score four_apples
   \<and> ticks [4, 5, 13 / 2] four_apples = Inr orange_eaten
   \<and> score four_apples \<le> score orange_eaten
   \<and> handle_event (KEYDOWN K_SPACE) four_apples = Inr (True, four_apples\<lparr>game_paused := True\<rparr>)
   \<and> score (four_apples\<lparr>game_paused := True\<rparr>) = score four_apples"
proof -
  have t: "ticks [4, 5, 13 / 2] four_apples = Inr orange_eaten"
    by (simp add: demo_played)
  have e: "handle_event (KEYDOWN K_SPACE) four_apples = Inr (True, four_apples\<lparr>game_paused := True\<rparr>)"
    by (simp add: four_apples_def continue_def)
  from score_never_falls [OF reachable_four_apples]
  have "0 \<le> score four_apples"
    and "ticks [4, 5, 13 / 2] four_apples = Inr orange_eaten \<longrightarrow>
           score four_apples \<le> score orange_eaten"
    and "handle_event (KEYDOWN K_SPACE) four_apples
           = Inr (True, four_apples\<lparr>game_paused := True\<rparr>) \<longrightarrow>
         score (four_apples\<lparr>game_paused := True\<rparr>)
           = (if restarts four_apples (KEYDOWN K_SPACE) then 0 else score four_apples)"
    by blast+
  with t e reachable_four_apples show ?thesis
    by (simp add: four_apples_def)
qed

section \<open>The count of apples and the orange\<close>








section \<open>When the calls return\<close>

text \<open>
  The spawn loops return as soon as a round draws a cell that is free; a generator
  that never draws one keeps them running.
\<close>

lemma spawn_food_returns:
  assumes "even (length pre)" and "(x, y) \<notin> set sn" and "\<not> oa \<or> Some (x, y) \<noteq> op"
  shows "\<exists>c ds'. spawn_food sn oa op (pre @ x # y # ds) = Inr (c, ds')"
  using assms(1)
proof (induction pre rule: induct_list012)
  case 1
  with assms(2,3) show ?case by auto
next
  case (2 a)
  then show ?case by simp
next
  case (3 a b pre)
  then show ?case by auto
qed

lemma spawn_orange_returns:
  assumes "even (length pre)" and "(x, y) \<notin> set sn" and "(x, y) \<noteq> fd"
  shows "\<exists>c ds'. spawn_orange sn fd (pre @ x # y # ds) = Inr (c, ds')"
  using assms(1)
proof (induction pre rule: induct_list012)
  case 1
  with assms(2,3) show ?case by auto
next
  case (2 a)
  then show ?case by simp
next
  case (3 a b pre)
  then show ?case by auto
qed

text \<open>
  \<open>update\<close> returns for every game with a snake, unless one of the spawn loops it runs
  after an apple does not.
\<close>

lemma update_returns:
  assumes "snake s \<noteq> []"
    and "new_head_of s = food s \<Longrightarrow>
         \<exists>c ds. spawn_food (new_head_of s # snake s) (orange_active s) (orange_pos s) (rng s)
                  = Inr (c, ds)
           \<and> (5 \<le> apples_eaten_since_orange s + 1 \<and> \<not> orange_active s \<longrightarrow>
                (\<exists>p ds'. spawn_orange (new_head_of s # snake s) c ds = Inr (p, ds')))"
  shows "\<exists>s'. update now s = Inr s'"
proof -
  obtain hx hy rest where sn: "snake s = (hx, hy) # rest"
    using assms(1) by (cases "snake s") auto
  obtain dx dy where d: "delta (next_direction s) = (dx, dy)"
    by (cases "delta (next_direction s)")
  note nh = new_head_of_eq [OF sn d]
  show ?thesis
  proof (cases "new_head_of s = food s")
    case True
    from assms(2) [OF True] True show ?thesis
      by (auto simp: update_def update_food_def sn d nh Let_def)
  next
    case False
    then show ?thesis
      by (simp add: update_def update_food_def sn d nh Let_def)
  qed
qed

end
